theory Spec2Isabelle
  imports Main
begin

section \<open>Lenstra's elliptic-curve factorisation: a model of \<^verbatim>\<open>main.py\<close>\<close>

text \<open>
  The Python program works on unbounded integers, so every number is an \<open>int\<close>.
  A point is an object with two fields or the value \<^verbatim>\<open>None\<close> (the point at
  infinity): a \<open>Point option\<close>. The curve object is mutated through its field
  \<^verbatim>\<open>div\<close> only; the model passes the curve in and returns it updated. Every
  exception the code can raise is a value of \<open>error\<close>, carried on the left of a sum.
\<close>

subsection \<open>Data\<close>

text \<open>
  \<^verbatim>\<open>class Point\<close>: the fields \<^verbatim>\<open>x\<close> and \<^verbatim>\<open>y\<close> are the selectors \<open>px\<close> and
  \<open>py\<close>. \<^verbatim>\<open>Point.__eq__\<close> compares the types and both fields, which is the
  equality of the datatype (and of \<open>Point option\<close> once \<^verbatim>\<open>None\<close> is involved).
\<close>

datatype Point = Point (px: int) (py: int)

text \<open>
  \<^verbatim>\<open>class EllipticCurve\<close>: the fields \<^verbatim>\<open>a\<close>, \<^verbatim>\<open>b\<close>, \<^verbatim>\<open>N\<close>, \<^verbatim>\<open>div\<close> carry the
  prefix \<open>ec_\<close> (\<open>div\<close> is HOL's division).
\<close>

record EllipticCurve =
  ec_a :: int
  ec_b :: int
  ec_N :: int
  ec_div :: int

text \<open>\<^verbatim>\<open>EllipticCurve.__init__\<close>: \<^verbatim>\<open>self.div = 1\<close>.\<close>

definition EllipticCurve_init :: "int \<Rightarrow> int \<Rightarrow> int \<Rightarrow> EllipticCurve" where
  "EllipticCurve_init a b N = \<lparr>ec_a = a, ec_b = b, ec_N = N, ec_div = 1\<rparr>"

text \<open>
  \<^verbatim>\<open>CannotAdd\<close> is the program's own exception. \<^verbatim>\<open>ValueError\<close> is what
  \<^verbatim>\<open>pow(a, -1, n)\<close> raises (no inverse, or \<open>n = 0\<close>) and what
  \<^verbatim>\<open>random.randint(1, N)\<close> raises on an empty range; \<^verbatim>\<open>ZeroDivisionError\<close> is
  \<^verbatim>\<open>%\<close> by zero; \<^verbatim>\<open>IndexError\<close> is a list index out of range.
\<close>

datatype error = CannotAdd | ValueError | ZeroDivisionError | IndexError

subsection \<open>The built-ins the program calls\<close>

text \<open>
  Extended Euclid: \<open>egcd a b = (g, s, t)\<close> with \<open>a * s + b * t = g\<close>. It computes
  what the built-in \<^verbatim>\<open>pow(a, -1, n)\<close> returns.
\<close>

function egcd :: "int \<Rightarrow> int \<Rightarrow> int \<times> int \<times> int" where
  "egcd a b =
     (if b = 0 then (a, 1, 0)
      else (case egcd b (a mod b) of (g, s, t) \<Rightarrow> (g, t, s - (a div b) * t)))"
  by pat_completeness auto
termination
  by (relation "measure (\<lambda>(a, b). nat \<bar>b\<bar>)") (auto simp: abs_mod_less)

declare egcd.simps [simp del]

text \<open>
  \<^verbatim>\<open>def inverse(a, n): return pow(a, -1, n)\<close>. Python raises \<^verbatim>\<open>ValueError\<close> when
  \<open>n = 0\<close> and when \<open>a\<close> is not invertible modulo \<open>n\<close>; otherwise the result is
  the inverse modulo \<open>\<bar>n\<bar>\<close>, with the sign of \<open>n\<close> (as \<^verbatim>\<open>%\<close> gives it).
\<close>

definition inverse_mod :: "int \<Rightarrow> int \<Rightarrow> error + int" where
  "inverse_mod a n =
     (if n = 0 then Inl ValueError
      else if gcd a n \<noteq> 1 then Inl ValueError
      else Inr (fst (snd (egcd (a mod \<bar>n\<bar>) \<bar>n\<bar>)) mod n))"

text \<open>
  Python's \<^verbatim>\<open>%\<close> on integers: the result has the sign of the divisor, as HOL's
  \<open>mod\<close> on \<open>int\<close>; a zero divisor raises.
\<close>

definition py_mod :: "int \<Rightarrow> int \<Rightarrow> error + int" where
  "py_mod a n = (if n = 0 then Inl ZeroDivisionError else Inr (a mod n))"

text \<open>
  \<^verbatim>\<open>bin(k)\<close>: the binary digits, most significant first, after \<^verbatim>\<open>0b\<close>, and
  after \<^verbatim>\<open>-0b\<close> for a negative number.
\<close>

fun bits :: "nat \<Rightarrow> string" where
  "bits n =
     (if n < 2 then (if n = 0 then ''0'' else ''1'')
      else bits (n div 2) @ (if n mod 2 = 0 then ''0'' else ''1''))"

declare bits.simps [simp del]

definition bin :: "int \<Rightarrow> string" where
  "bin k = (if k < 0 then ''-0b'' @ bits (nat (- k)) else ''0b'' @ bits (nat k))"

subsection \<open>\<^verbatim>\<open>EllipticCurve.sum\<close>\<close>

text \<open>
  The body of the \<^verbatim>\<open>try\<close> block of \<^verbatim>\<open>sum\<close>. \<^verbatim>\<open>self.div\<close> is assigned before
  \<^verbatim>\<open>raise CannotAdd\<close>, so the curve returned with the error carries the new value.
\<close>

definition sum_points_try ::
  "EllipticCurve \<Rightarrow> Point option \<Rightarrow> Point option \<Rightarrow> (error + Point option) \<times> EllipticCurve" where
  "sum_points_try E p q =
     (case p of
        None \<Rightarrow> (Inr q, E)
      | Some P \<Rightarrow>
          (case q of
             None \<Rightarrow> (Inr p, E)
           | Some Q \<Rightarrow>
               if P = Q then
                 if gcd (2 * py P) (ec_N E) \<noteq> 1
                 then (Inl CannotAdd, E\<lparr>ec_div := gcd (2 * py P) (ec_N E)\<rparr>)
                 else
                   (case inverse_mod (2 * py P) (ec_N E) of
                      Inl e \<Rightarrow> (Inl e, E)
                    | Inr i \<Rightarrow>
                        let slope = (3 * px P * px P + ec_a E) * i in
                        (case py_mod (slope * slope - 2 * px P) (ec_N E) of
                           Inl e \<Rightarrow> (Inl e, E)
                         | Inr x \<Rightarrow>
                             (case py_mod (slope * (px P - x) - py P) (ec_N E) of
                                Inl e \<Rightarrow> (Inl e, E)
                              | Inr y \<Rightarrow> (Inr (Some (Point x y)), E))))
               else
                 if gcd (px Q - px P) (ec_N E) \<noteq> 1
                 then (Inl CannotAdd, E\<lparr>ec_div := gcd (px Q - px P) (ec_N E)\<rparr>)
                 else
                   (case inverse_mod (px Q - px P) (ec_N E) of
                      Inl e \<Rightarrow> (Inl e, E)
                    | Inr i \<Rightarrow>
                        let slope = (py Q - py P) * i in
                        (case py_mod (slope * slope - px P - px Q) (ec_N E) of
                           Inl e \<Rightarrow> (Inl e, E)
                         | Inr x3 \<Rightarrow>
                             (case py_mod (slope * (px P - x3) - py P) (ec_N E) of
                                Inl e \<Rightarrow> (Inl e, E)
                              | Inr y3 \<Rightarrow> (Inr (Some (Point x3 y3)), E))))))"

text \<open>
  \<^verbatim>\<open>sum\<close> itself, named \<open>sum_points\<close> here (\<open>sum\<close> is HOL's big sum): the
  \<^verbatim>\<open>try\<close> block under \<^verbatim>\<open>except CannotAdd: return None\<close>. Any other exception
  leaves the method.
\<close>

definition sum_points ::
  "EllipticCurve \<Rightarrow> Point option \<Rightarrow> Point option \<Rightarrow> (error + Point option) \<times> EllipticCurve" where
  "sum_points E p q =
     (case sum_points_try E p q of
        (Inl CannotAdd, E') \<Rightarrow> (Inr None, E')
      | r \<Rightarrow> r)"

subsection \<open>\<^verbatim>\<open>EllipticCurve.mult\<close>\<close>

text \<open>
  The first loop of \<^verbatim>\<open>mult\<close>: \<^verbatim>\<open>for _ in range(m-1)\<close> appends
  \<^verbatim>\<open>self.sum(powers_of_two[-1], powers_of_two[-1])\<close>. The second argument is the
  list so far, the third the number of rounds left.
\<close>

fun doublings ::
  "EllipticCurve \<Rightarrow> Point option list \<Rightarrow> nat \<Rightarrow> (error + Point option list) \<times> EllipticCurve" where
  "doublings E powers_of_two 0 = (Inr powers_of_two, E)"
| "doublings E powers_of_two (Suc n) =
     (if powers_of_two = [] then (Inl IndexError, E)
      else
        (case sum_points E (last powers_of_two) (last powers_of_two) of
           (Inl e, E') \<Rightarrow> (Inl e, E')
         | (Inr new_point, E') \<Rightarrow> doublings E' (powers_of_two @ [new_point]) n))"

text \<open>
  The second loop: \<^verbatim>\<open>for i, v in enumerate(binary_expansion)\<close>, with the
  accumulator \<^verbatim>\<open>q\<close>; the pairs still to visit are the third argument.
\<close>

fun accumulate ::
  "EllipticCurve \<Rightarrow> Point option list \<Rightarrow> (nat \<times> char) list \<Rightarrow> Point option
     \<Rightarrow> (error + Point option) \<times> EllipticCurve" where
  "accumulate E powers_of_two [] q = (Inr q, E)"
| "accumulate E powers_of_two ((i, v) # rest) q =
     (if v = CHR ''1'' then
        (if i < length powers_of_two then
           (case sum_points E (powers_of_two ! i) q of
              (Inl e, E') \<Rightarrow> (Inl e, E')
            | (Inr q', E') \<Rightarrow> accumulate E' powers_of_two rest q')
         else (Inl IndexError, E))
      else accumulate E powers_of_two rest q)"

text \<open>The body of \<^verbatim>\<open>mult\<close> after the test \<^verbatim>\<open>p == None\<close>: its \<^verbatim>\<open>try\<close> block.\<close>

definition mult_try ::
  "EllipticCurve \<Rightarrow> Point option \<Rightarrow> int \<Rightarrow> (error + Point option) \<times> EllipticCurve" where
  "mult_try E p k =
     (let binary_expansion = drop 2 (bin k);
          m = length binary_expansion
      in (case doublings E [p] (m - 1) of
            (Inl e, E') \<Rightarrow> (Inl e, E')
          | (Inr powers_of_two, E') \<Rightarrow>
              accumulate E' powers_of_two (enumerate 0 binary_expansion) None))"

text \<open>\<^verbatim>\<open>mult\<close>: the early return, then the block under \<^verbatim>\<open>except CannotAdd: return None\<close>.\<close>

definition mult ::
  "EllipticCurve \<Rightarrow> Point option \<Rightarrow> int \<Rightarrow> (error + Point option) \<times> EllipticCurve" where
  "mult E p k =
     (if p = None then (Inr None, E)
      else
        (case mult_try E p k of
           (Inl CannotAdd, E') \<Rightarrow> (Inr None, E')
         | r \<Rightarrow> r))"

subsection \<open>\<^verbatim>\<open>Lenstra\<close>\<close>

text \<open>
  The \<^verbatim>\<open>while E.div == 1\<close> loop, on the state (curve, point, i). The loop may
  run forever, so its result is an option: \<open>None\<close> is non-termination,
  \<open>Some (Inr d)\<close> is \<^verbatim>\<open>return E.div\<close> with \<open>d\<close>, \<open>Some (Inl e)\<close> an exception that
  leaves \<^verbatim>\<open>Lenstra\<close>. \<^verbatim>\<open>except CannotAdd: break\<close> goes to the \<^verbatim>\<open>return\<close>.
\<close>

partial_function (option) Lenstra_loop ::
  "EllipticCurve \<Rightarrow> Point option \<Rightarrow> int \<Rightarrow> (error + int) option" where
  "Lenstra_loop E point i =
     (if ec_div E = 1 then
        (if point = None then Some (Inr (ec_div E))
         else
           (case mult E point i of
              (Inl CannotAdd, E') \<Rightarrow> Some (Inr (ec_div E'))
            | (Inl e, E') \<Rightarrow> Some (Inl e)
            | (Inr point', E') \<Rightarrow> Lenstra_loop E' point' (i + 1)))
      else Some (Inr (ec_div E)))"

declare Lenstra_loop.simps [code]

text \<open>
  \<^verbatim>\<open>Lenstra(N)\<close>, with the three values drawn by \<^verbatim>\<open>random.randint(1, N)\<close> as the
  arguments \<open>x0\<close>, \<open>y0\<close>, \<open>a\<close>. \<^verbatim>\<open>randint\<close> raises \<^verbatim>\<open>ValueError\<close> on the empty
  range, that is when \<open>N < 1\<close>.
\<close>

definition Lenstra :: "int \<Rightarrow> int \<Rightarrow> int \<Rightarrow> int \<Rightarrow> (error + int) option" where
  "Lenstra N x0 y0 a =
     (if N < 1 then Some (Inl ValueError)
      else
        (case py_mod (y0 * y0 - x0 * x0 * x0 - a * x0) N of
           Inl e \<Rightarrow> Some (Inl e)
         | Inr b \<Rightarrow> Lenstra_loop (EllipticCurve_init a b N) (Some (Point x0 y0)) 1))"

text \<open>The outcomes of \<^verbatim>\<open>random.randint(1, N)\<close>.\<close>

definition randint_outcome :: "int \<Rightarrow> int \<Rightarrow> bool" where
  "randint_outcome N v = (1 \<le> v \<and> v \<le> N)"

subsection \<open>The states of the loop\<close>





subsection \<open>Sequences of operations on one curve\<close>

text \<open>
  A client of a curve object calls \<^verbatim>\<open>sum\<close> and \<^verbatim>\<open>mult\<close> on it in some order, with
  any arguments. Only the curve object carries state from one call to the next, so a
  run is the curve after each call in turn, whatever the call returned.
\<close>

datatype curve_op = Call_sum "Point option" "Point option" | Call_mult "Point option" int

fun apply_op :: "EllipticCurve \<Rightarrow> curve_op \<Rightarrow> EllipticCurve" where
  "apply_op E (Call_sum p q) = snd (sum_points E p q)"
| "apply_op E (Call_mult p k) = snd (mult E p k)"

definition run_ops :: "EllipticCurve \<Rightarrow> curve_op list \<Rightarrow> EllipticCurve" where
  "run_ops E ops = foldl apply_op E ops"

text \<open>
  What a call can do to the curve object: nothing, or store in \<^verbatim>\<open>div\<close> a
  greatest common divisor with \<^verbatim>\<open>N\<close> that is not 1.
\<close>

definition div_step :: "EllipticCurve \<Rightarrow> EllipticCurve \<Rightarrow> bool" where
  "div_step E E' = (E' = E \<or> (\<exists>n. gcd n (ec_N E) \<noteq> 1 \<and> E' = E\<lparr>ec_div := gcd n (ec_N E)\<rparr>))"

section \<open>Properties\<close>

subsection \<open>The built-ins\<close>

lemma py_mod_Inl: "py_mod a n = Inl e \<Longrightarrow> e = ZeroDivisionError \<and> n = 0"
  by (simp add: py_mod_def split: if_splits)

lemma inverse_mod_Inl: "inverse_mod a n = Inl e \<Longrightarrow> e = ValueError \<and> (n = 0 \<or> gcd a n \<noteq> 1)"
  by (simp add: inverse_mod_def split: if_splits)

text \<open>
  The model of \<^verbatim>\<open>pow(a, -1, n)\<close> does return an inverse: Bezout's identity for
  \<open>egcd\<close>, its first component on non-negative arguments, and the result.
\<close>

lemma egcd_bezout: "egcd a b = (g, s, t) \<Longrightarrow> a * s + b * t = g"
proof (induction a b arbitrary: g s t rule: egcd.induct)
  case (1 a b)
  show ?case
  proof (cases "b = 0")
    case True
    then show ?thesis using "1.prems" by (simp add: egcd.simps)
  next
    case False
    obtain g' s' t' where rec: "egcd b (a mod b) = (g', s', t')"
      by (cases "egcd b (a mod b)")
    have res: "g = g'" "s = t'" "t = s' - (a div b) * t'"
      using "1.prems" False rec by (auto simp: egcd.simps [of a b])
    have IH: "b * s' + (a mod b) * t' = g'" using "1.IH" [OF False rec] .
    have "a * t' + b * (s' - (a div b) * t') = b * s' + (a - b * (a div b)) * t'"
      by (simp add: algebra_simps)
    also have "a - b * (a div b) = a mod b" by (simp add: minus_mult_div_eq_mod)
    finally show ?thesis using IH res by simp
  qed
qed

lemma egcd_gcd: "0 \<le> a \<Longrightarrow> 0 \<le> b \<Longrightarrow> fst (egcd a b) = gcd a b"
proof (induction a b rule: egcd.induct)
  case (1 a b)
  show ?case
  proof (cases "b = 0")
    case True
    then show ?thesis using "1.prems" by (simp add: egcd.simps)
  next
    case False
    then have pos: "0 < b" using "1.prems" by simp
    then have "0 \<le> a mod b" by simp
    from "1.IH" [OF False "1.prems"(2) this]
    have "fst (egcd b (a mod b)) = gcd b (a mod b)" .
    moreover have "fst (egcd a b) = fst (egcd b (a mod b))"
      using False by (simp add: egcd.simps [of a b] split: prod.splits)
    moreover have "gcd b (a mod b) = gcd a b" using gcd_red_int [of a b] by simp
    ultimately show ?thesis by simp
  qed
qed

lemma inverse_mod_correct:
  assumes "n \<noteq> 0" "gcd a n = 1"
  shows "\<exists>r. inverse_mod a n = Inr r \<and> (a * r) mod n = 1 mod n \<and> (0 < n \<longrightarrow> 0 \<le> r \<and> r < n)"
proof -
  let ?m = "\<bar>n\<bar>"
  obtain g s t where e: "egcd (a mod ?m) ?m = (g, s, t)" by (cases "egcd (a mod ?m) ?m")
  have m: "0 < ?m" using assms(1) by simp
  have "g = gcd (a mod ?m) ?m" using egcd_gcd [of "a mod ?m" ?m] e m by simp
  also have "\<dots> = gcd a ?m" using gcd_red_int [of a ?m] by (simp add: gcd.commute)
  also have "\<dots> = gcd a n" by simp
  finally have g: "g = 1" using assms(2) by simp
  have "(a mod ?m) * s + ?m * t = 1" using egcd_bezout [OF e] g by simp
  then have "(a mod ?m) * s - 1 = - (?m * t)" by linarith
  then have "(a mod ?m) * s - 1 = ?m * (- t)" by simp
  then have "?m dvd (a mod ?m) * s - 1" by (rule dvdI)
  then have "((a mod ?m) * s) mod ?m = 1 mod ?m" by (simp add: mod_eq_dvd_iff)
  then have "(a * s) mod ?m = 1 mod ?m" by (simp add: mod_mult_left_eq)
  then have "?m dvd a * s - 1" by (simp add: mod_eq_dvd_iff)
  then have "n dvd a * s - 1" by simp
  then have "(a * s) mod n = 1 mod n" by (simp add: mod_eq_dvd_iff)
  then have "(a * (s mod n)) mod n = 1 mod n" by (simp add: mod_mult_right_eq)
  moreover have "inverse_mod a n = Inr (s mod n)"
    using assms e by (simp add: inverse_mod_def)
  moreover have "0 < n \<longrightarrow> 0 \<le> s mod n \<and> s mod n < n" by simp
  ultimately show ?thesis by blast
qed

subsection \<open>Binary expansions\<close>

text \<open>\<^verbatim>\<open>bin(0)\<close> is \<^verbatim>\<open>0b0\<close>.\<close>

lemma bits_0: "bits 0 = ''0''"
  by (simp add: bits.simps)

text \<open>\<^verbatim>\<open>bin(2)\<close> is \<^verbatim>\<open>0b10\<close>; the expansion of a positive number starts with a set bit.\<close>

lemma bits_2: "bits 2 = ''10''"
  by code_simp


subsection \<open>One addition\<close>

text \<open>
  The \<^verbatim>\<open>try\<close> block of \<^verbatim>\<open>sum\<close> either leaves the curve alone and does not raise
  \<^verbatim>\<open>CannotAdd\<close>, or raises it with \<^verbatim>\<open>div\<close> set to a gcd that is not 1.
\<close>

lemma sum_points_try_state:
  "snd (sum_points_try E p q) = E \<and> fst (sum_points_try E p q) \<noteq> Inl CannotAdd \<or>
   (\<exists>n. gcd n (ec_N E) \<noteq> 1 \<and> sum_points_try E p q = (Inl CannotAdd, E\<lparr>ec_div := gcd n (ec_N E)\<rparr>))"
proof (cases p)
  case None
  then show ?thesis by (simp add: sum_points_try_def)
next
  case (Some P)
  note p = this
  show ?thesis
  proof (cases q)
    case None
    then show ?thesis using p by (simp add: sum_points_try_def)
  next
    case (Some Q)
    show ?thesis
    proof (cases "P = Q")
      case True
      show ?thesis
      proof (cases "gcd (2 * py P) (ec_N E) = 1")
        case True
        then show ?thesis using p Some \<open>P = Q\<close>
          unfolding sum_points_try_def Let_def
          by (auto split: sum.splits dest: py_mod_Inl inverse_mod_Inl)
      next
        case False
        then have "sum_points_try E p q = (Inl CannotAdd, E\<lparr>ec_div := gcd (2 * py P) (ec_N E)\<rparr>)"
          using p Some \<open>P = Q\<close> by (simp add: sum_points_try_def)
        with False show ?thesis by blast
      qed
    next
      case False
      note ne = this
      show ?thesis
      proof (cases "gcd (px Q - px P) (ec_N E) = 1")
        case True
        then show ?thesis using p Some ne
          unfolding sum_points_try_def Let_def
          by (auto split: sum.splits dest: py_mod_Inl inverse_mod_Inl)
      next
        case False
        then have "sum_points_try E p q = (Inl CannotAdd, E\<lparr>ec_div := gcd (px Q - px P) (ec_N E)\<rparr>)"
          using p Some ne by (simp add: sum_points_try_def)
        with False show ?thesis by blast
      qed
    qed
  qed
qed

lemma sum_points_try_total:
  assumes "ec_N E \<noteq> 0"
  shows "fst (sum_points_try E p q) = Inl CannotAdd \<or> (\<exists>r. fst (sum_points_try E p q) = Inr r)"
  using assms unfolding sum_points_try_def Let_def
  by (auto split: option.splits sum.splits dest: py_mod_Inl inverse_mod_Inl)


subsection \<open>The steps of the curve object\<close>

lemma div_step_refl: "div_step E E"
  by (simp add: div_step_def)

lemma div_step_N: "div_step E E' \<Longrightarrow> ec_N E' = ec_N E"
  by (auto simp: div_step_def)

lemma div_step_trans:
  assumes "div_step E E'" "div_step E' E''"
  shows "div_step E E''"
proof -
  have N: "ec_N E' = ec_N E" using assms(1) by (rule div_step_N)
  from assms(2) consider "E'' = E'" | n where "gcd n (ec_N E) \<noteq> 1" "E'' = E'\<lparr>ec_div := gcd n (ec_N E)\<rparr>"
    unfolding div_step_def N by blast
  then show ?thesis
  proof cases
    case 1
    then show ?thesis using assms(1) by simp
  next
    case 2
    from assms(1) have "E'' = E\<lparr>ec_div := gcd n (ec_N E)\<rparr>"
      unfolding div_step_def using 2(2) by auto
    with 2(1) show ?thesis unfolding div_step_def by blast
  qed
qed

lemma div_step_set: "div_step E E' \<Longrightarrow> ec_div E \<noteq> 1 \<Longrightarrow> ec_div E' \<noteq> 1"
  by (auto simp: div_step_def)

lemma div_step_cases:
  assumes "div_step E E'"
  shows "ec_div E' = ec_div E \<or> (ec_div E' \<noteq> 1 \<and> 0 \<le> ec_div E' \<and> ec_div E' dvd ec_N E)"
  using assms by (auto simp: div_step_def)

subsection \<open>\<^verbatim>\<open>sum\<close> under its handler\<close>

lemma sum_points_cases:
  obtains (same) "sum_points E p q = sum_points_try E p q" "snd (sum_points E p q) = E"
      "fst (sum_points E p q) \<noteq> Inl CannotAdd"
  | (fail) n where "gcd n (ec_N E) \<noteq> 1"
      "sum_points_try E p q = (Inl CannotAdd, E\<lparr>ec_div := gcd n (ec_N E)\<rparr>)"
      "sum_points E p q = (Inr None, E\<lparr>ec_div := gcd n (ec_N E)\<rparr>)"
proof -
  consider (a) "snd (sum_points_try E p q) = E" "fst (sum_points_try E p q) \<noteq> Inl CannotAdd"
    | (b) n where "gcd n (ec_N E) \<noteq> 1"
        "sum_points_try E p q = (Inl CannotAdd, E\<lparr>ec_div := gcd n (ec_N E)\<rparr>)"
    using sum_points_try_state [of E p q] by blast
  then show thesis
  proof cases
    case a
    then have "sum_points E p q = sum_points_try E p q"
      by (cases "sum_points_try E p q") (auto simp: sum_points_def split: sum.splits error.splits)
    with a show thesis by (intro same) simp_all
  next
    case b
    then have "sum_points E p q = (Inr None, E\<lparr>ec_div := gcd n (ec_N E)\<rparr>)"
      by (simp add: sum_points_def)
    with b show thesis by (intro fail)
  qed
qed

lemma sum_points_no_CannotAdd: "fst (sum_points E p q) \<noteq> Inl CannotAdd"
  by (cases E p q rule: sum_points_cases) simp_all

lemma sum_points_step: "div_step E (snd (sum_points E p q))"
  by (cases E p q rule: sum_points_cases) (auto simp: div_step_def)

lemma sum_points_total:
  assumes "ec_N E \<noteq> 0"
  shows "\<exists>r. fst (sum_points E p q) = Inr r"
proof (cases E p q rule: sum_points_cases)
  case same
  then show ?thesis using sum_points_try_total [OF assms, of p q] by auto
next
  case (fail n)
  then show ?thesis by simp
qed



subsection \<open>The two loops of \<^verbatim>\<open>mult\<close>\<close>

lemma doublings_step: "div_step E (snd (doublings E pts n))"
proof (induction n arbitrary: E pts)
  case 0
  show ?case by (simp add: div_step_refl)
next
  case (Suc n)
  show ?case
  proof (cases "pts = []")
    case True
    then show ?thesis by (simp add: div_step_refl)
  next
    case False
    obtain r E' where r: "sum_points E (last pts) (last pts) = (r, E')"
      by (cases "sum_points E (last pts) (last pts)")
    have st: "div_step E E'" using sum_points_step [of E "last pts" "last pts"] r by simp
    show ?thesis
    proof (cases r)
      case (Inl e)
      then show ?thesis using False r st by simp
    next
      case (Inr np)
      then have "doublings E pts (Suc n) = doublings E' (pts @ [np]) n"
        using False r by simp
      then show ?thesis using Suc.IH [of E' "pts @ [np]"] st by (metis div_step_trans)
    qed
  qed
qed

lemma doublings_no_CannotAdd: "fst (doublings E pts n) \<noteq> Inl CannotAdd"
proof (induction n arbitrary: E pts)
  case 0
  show ?case by simp
next
  case (Suc n)
  show ?case
  proof (cases "pts = []")
    case True
    then show ?thesis by simp
  next
    case False
    obtain r E' where r: "sum_points E (last pts) (last pts) = (r, E')"
      by (cases "sum_points E (last pts) (last pts)")
    have nc: "r \<noteq> Inl CannotAdd" using sum_points_no_CannotAdd [of E "last pts" "last pts"] r by simp
    show ?thesis
    proof (cases r)
      case (Inl e)
      then show ?thesis using False r nc by simp
    next
      case (Inr np)
      then have "doublings E pts (Suc n) = doublings E' (pts @ [np]) n"
        using False r by simp
      then show ?thesis using Suc.IH [of E' "pts @ [np]"] by simp
    qed
  qed
qed

lemma doublings_total:
  assumes "ec_N E \<noteq> 0" "pts \<noteq> []"
  shows "\<exists>r. fst (doublings E pts n) = Inr r \<and> length r = length pts + n \<and> take (length pts) r = pts"
  using assms
proof (induction n arbitrary: E pts)
  case 0
  show ?case by simp
next
  case (Suc n)
  obtain r E' where r: "sum_points E (last pts) (last pts) = (r, E')"
    by (cases "sum_points E (last pts) (last pts)")
  obtain np where np: "r = Inr np"
    using sum_points_total [OF Suc.prems(1), of "last pts" "last pts"] r by auto
  have "div_step E E'" using sum_points_step [of E "last pts" "last pts"] r by simp
  then have N: "ec_N E' \<noteq> 0" using Suc.prems(1) by (simp add: div_step_N)
  have eq: "doublings E pts (Suc n) = doublings E' (pts @ [np]) n"
    using Suc.prems(2) r np by simp
  from Suc.IH [OF N, of "pts @ [np]"] obtain res where
    res: "fst (doublings E' (pts @ [np]) n) = Inr res" "length res = length (pts @ [np]) + n"
      "take (length (pts @ [np])) res = pts @ [np]"
    by auto
  have "take (length pts) res = take (length pts) (take (length (pts @ [np])) res)"
    by (simp add: min_def)
  also have "\<dots> = pts" unfolding res(3) by simp
  finally show ?case using res(1,2) eq by simp
qed



lemma accumulate_step: "div_step E (snd (accumulate E pts ivs q))"
proof (induction ivs arbitrary: E q)
  case Nil
  show ?case by (simp add: div_step_refl)
next
  case (Cons iv ivs)
  obtain i v where iv: "iv = (i, v)" by (cases iv)
  show ?case
  proof (cases "v = CHR ''1''")
    case False
    then show ?thesis using Cons.IH [of E q] iv by simp
  next
    case True
    show ?thesis
    proof (cases "i < length pts")
      case False
      then show ?thesis using True iv by (simp add: div_step_refl)
    next
      case lt: True
      obtain r E' where r: "sum_points E (pts ! i) q = (r, E')"
        by (cases "sum_points E (pts ! i) q")
      have st: "div_step E E'" using sum_points_step [of E "pts ! i" q] r by simp
      show ?thesis
      proof (cases r)
        case (Inl e)
        then show ?thesis using True lt iv r st by simp
      next
        case (Inr q')
        then have "accumulate E pts (iv # ivs) q = accumulate E' pts ivs q'"
          using True lt iv r by simp
        then show ?thesis using Cons.IH [of E' q'] st by (metis div_step_trans)
      qed
    qed
  qed
qed

lemma accumulate_no_CannotAdd: "fst (accumulate E pts ivs q) \<noteq> Inl CannotAdd"
proof (induction ivs arbitrary: E q)
  case Nil
  show ?case by simp
next
  case (Cons iv ivs)
  obtain i v where iv: "iv = (i, v)" by (cases iv)
  show ?case
  proof (cases "v = CHR ''1'' \<and> i < length pts")
    case False
    then show ?thesis using Cons.IH [of E q] iv by auto
  next
    case True
    obtain r E' where r: "sum_points E (pts ! i) q = (r, E')"
      by (cases "sum_points E (pts ! i) q")
    have nc: "r \<noteq> Inl CannotAdd" using sum_points_no_CannotAdd [of E "pts ! i" q] r by simp
    show ?thesis
    proof (cases r)
      case (Inl e)
      then show ?thesis using True iv r nc by simp
    next
      case (Inr q')
      then have "accumulate E pts (iv # ivs) q = accumulate E' pts ivs q'"
        using True iv r by simp
      then show ?thesis using Cons.IH [of E' q'] by simp
    qed
  qed
qed

lemma accumulate_total:
  assumes "ec_N E \<noteq> 0" "\<forall>iv \<in> set ivs. fst iv < length pts"
  shows "\<exists>r. fst (accumulate E pts ivs q) = Inr r"
  using assms
proof (induction ivs arbitrary: E q)
  case Nil
  show ?case by simp
next
  case (Cons iv ivs)
  obtain i v where iv: "iv = (i, v)" by (cases iv)
  have lt: "i < length pts" using Cons.prems(2) iv by simp
  have rest: "\<forall>iv \<in> set ivs. fst iv < length pts" using Cons.prems(2) by simp
  show ?case
  proof (cases "v = CHR ''1''")
    case False
    then show ?thesis using Cons.IH [OF Cons.prems(1) rest, of q] iv by simp
  next
    case True
    obtain r E' where r: "sum_points E (pts ! i) q = (r, E')"
      by (cases "sum_points E (pts ! i) q")
    obtain q' where q': "r = Inr q'"
      using sum_points_total [OF Cons.prems(1), of "pts ! i" q] r by auto
    have "div_step E E'" using sum_points_step [of E "pts ! i" q] r by simp
    then have N: "ec_N E' \<noteq> 0" using Cons.prems(1) by (simp add: div_step_N)
    have "accumulate E pts (iv # ivs) q = accumulate E' pts ivs q'"
      using True lt iv r q' by simp
    then show ?thesis using Cons.IH [OF N rest, of q'] by simp
  qed
qed


subsection \<open>\<^verbatim>\<open>mult\<close>\<close>

lemma mult_try_step: "div_step E (snd (mult_try E p k))"
proof -
  obtain r E' where d: "doublings E [p] (length (drop 2 (bin k)) - 1) = (r, E')"
    by (cases "doublings E [p] (length (drop 2 (bin k)) - 1)")
  have st: "div_step E E'" using doublings_step [of E "[p]" "length (drop 2 (bin k)) - 1"] d by simp
  show ?thesis
  proof (cases r)
    case (Inl e)
    then show ?thesis using d st by (simp add: mult_try_def Let_def)
  next
    case (Inr pts)
    then have "mult_try E p k = accumulate E' pts (enumerate 0 (drop 2 (bin k))) None"
      using d by (simp add: mult_try_def Let_def)
    then show ?thesis
      using accumulate_step [of E' pts "enumerate 0 (drop 2 (bin k))" None] st
      by (metis div_step_trans)
  qed
qed

lemma mult_try_no_CannotAdd: "fst (mult_try E p k) \<noteq> Inl CannotAdd"
proof -
  obtain r E' where d: "doublings E [p] (length (drop 2 (bin k)) - 1) = (r, E')"
    by (cases "doublings E [p] (length (drop 2 (bin k)) - 1)")
  have nc: "r \<noteq> Inl CannotAdd"
    using doublings_no_CannotAdd [of E "[p]" "length (drop 2 (bin k)) - 1"] d by simp
  show ?thesis
  proof (cases r)
    case (Inl e)
    then show ?thesis using d nc by (simp add: mult_try_def Let_def)
  next
    case (Inr pts)
    then have "mult_try E p k = accumulate E' pts (enumerate 0 (drop 2 (bin k))) None"
      using d by (simp add: mult_try_def Let_def)
    then show ?thesis
      using accumulate_no_CannotAdd [of E' pts "enumerate 0 (drop 2 (bin k))" None] by simp
  qed
qed

lemma mult_eq_mult_try: "p \<noteq> None \<Longrightarrow> mult E p k = mult_try E p k"
  using mult_try_no_CannotAdd [of E p k]
  by (cases "mult_try E p k") (auto simp: mult_def split: sum.splits error.splits)

lemma mult_step: "div_step E (snd (mult E p k))"
  by (cases "p = None") (simp_all add: mult_eq_mult_try mult_try_step, simp add: mult_def div_step_refl)

lemma mult_no_CannotAdd: "fst (mult E p k) \<noteq> Inl CannotAdd"
  by (cases "p = None") (simp_all add: mult_eq_mult_try mult_try_no_CannotAdd, simp add: mult_def)

lemma mult_try_total:
  assumes "ec_N E \<noteq> 0"
  shows "\<exists>r. fst (mult_try E p k) = Inr r"
proof -
  let ?be = "drop 2 (bin k)"
  obtain r E' where d: "doublings E [p] (length ?be - 1) = (r, E')"
    by (cases "doublings E [p] (length ?be - 1)")
  obtain pts where pts: "r = Inr pts" "length pts = length [p] + (length ?be - 1)"
    using doublings_total [OF assms, of "[p]" "length ?be - 1"] d by auto
  have "div_step E E'" using doublings_step [of E "[p]" "length ?be - 1"] d by simp
  then have N: "ec_N E' \<noteq> 0" using assms by (simp add: div_step_N)
  have idx: "\<forall>iv \<in> set (enumerate 0 ?be). fst iv < length pts"
    using pts(2) by (auto simp: in_set_enumerate_eq)
  have "mult_try E p k = accumulate E' pts (enumerate 0 ?be) None"
    using d pts(1) by (simp add: mult_try_def Let_def)
  then show ?thesis using accumulate_total [OF N idx, of None] by simp
qed

lemma mult_total:
  assumes "ec_N E \<noteq> 0"
  shows "\<exists>r. fst (mult E p k) = Inr r"
proof (cases "p = None")
  case True
  then show ?thesis by (simp add: mult_def)
next
  case False
  then show ?thesis using mult_try_total [OF assms, of p k] by (simp add: mult_eq_mult_try)
qed


text \<open>
  \<^verbatim>\<open>mult(P, 2)\<close> computes the double of \<open>P\<close> and then returns \<open>P\<close>: the first
  character of \<^verbatim>\<open>10\<close>, the set bit, selects \<^verbatim>\<open>powers_of_two[0]\<close>.
\<close>

lemma mult_2:
  assumes "ec_N E \<noteq> 0"
  shows "mult E (Some P) 2 = (Inr (Some P), snd (sum_points E (Some P) (Some P)))"
proof -
  obtain r E' where r: "sum_points E (Some P) (Some P) = (r, E')"
    by (cases "sum_points E (Some P) (Some P)")
  obtain np where np: "r = Inr np"
    using sum_points_total [OF assms, of "Some P" "Some P"] r by auto
  have be: "drop 2 (bin 2) = ''10''" by (simp add: bin_def bits_2)
  have d: "doublings E [Some P] (Suc 0) = (Inr [Some P, np], E')"
    using r np by simp
  have "sum_points E' (Some P) None = (Inr (Some P), E')"
    by (simp add: sum_points_def sum_points_try_def)
  then have "accumulate E' [Some P, np] (enumerate 0 ''10'') None = (Inr (Some P), E')"
    by (simp add: enumerate_simps)
  then have "mult_try E (Some P) 2 = (Inr (Some P), E')"
    unfolding mult_try_def Let_def be using d by simp
  then show ?thesis using r by (simp add: mult_eq_mult_try)
qed


subsection \<open>The loop of \<^verbatim>\<open>Lenstra\<close>\<close>

text \<open>
  Whenever the loop returns, it returns the \<^verbatim>\<open>div\<close> of a curve reached from the
  first one by steps, or an exception other than \<^verbatim>\<open>CannotAdd\<close>, which needs
  \<open>N = 0\<close>. The proof is by the induction rule of the partial function.
\<close>

lemma Lenstra_loop_result:
  assumes "Lenstra_loop E point i = Some r"
  shows "\<exists>E'. div_step E E' \<and>
           (r = Inr (ec_div E') \<or> (\<exists>e. r = Inl e \<and> e \<noteq> CannotAdd \<and> ec_N E = 0))"
proof (rule Lenstra_loop.raw_induct
    [where P = "\<lambda>E point i r. \<exists>E'. div_step E E' \<and>
           (r = Inr (ec_div E') \<or> (\<exists>e. r = Inl e \<and> e \<noteq> CannotAdd \<and> ec_N E = 0))",
     OF _ assms])
  fix loop :: "EllipticCurve \<Rightarrow> Point option \<Rightarrow> int \<Rightarrow> (error + int) option"
  fix E point i r
  assume IH: "\<And>E point i r. loop E point i = Some r \<Longrightarrow>
      \<exists>E'. div_step E E' \<and>
           (r = Inr (ec_div E') \<or> (\<exists>e. r = Inl e \<and> e \<noteq> CannotAdd \<and> ec_N E = 0))"
  assume body: "(if ec_div E = 1 then
        (if point = None then Some (Inr (ec_div E))
         else
           (case mult E point i of
              (Inl CannotAdd, E') \<Rightarrow> Some (Inr (ec_div E'))
            | (Inl e, E') \<Rightarrow> Some (Inl e)
            | (Inr point', E') \<Rightarrow> loop E' point' (i + 1)))
      else Some (Inr (ec_div E))) = Some r"
  show "\<exists>E'. div_step E E' \<and>
           (r = Inr (ec_div E') \<or> (\<exists>e. r = Inl e \<and> e \<noteq> CannotAdd \<and> ec_N E = 0))"
  proof (cases "ec_div E = 1 \<and> point \<noteq> None")
    case False
    then have "r = Inr (ec_div E)" using body by (auto split: if_splits)
    then show ?thesis using div_step_refl by blast
  next
    case True
    obtain res E1 where m: "mult E point i = (res, E1)" by (cases "mult E point i")
    have st: "div_step E E1" using mult_step [of E point i] m by simp
    have nc: "res \<noteq> Inl CannotAdd" using mult_no_CannotAdd [of E point i] m by simp
    show ?thesis
    proof (cases res)
      case (Inl e)
      then have r: "r = Inl e" using body True m nc by (cases e) simp_all
      have "ec_N E = 0" using mult_total [of E point i] m Inl by auto
      then show ?thesis using r nc Inl div_step_refl by blast
    next
      case (Inr point')
      then have "loop E1 point' (i + 1) = Some r" using body True m by simp
      from IH [OF this] obtain E' where
        E': "div_step E1 E'" "r = Inr (ec_div E') \<or> (\<exists>e. r = Inl e \<and> e \<noteq> CannotAdd \<and> ec_N E1 = 0)"
        by blast
      have "div_step E E'" using st E'(1) by (rule div_step_trans)
      moreover have "ec_N E1 = ec_N E" using st by (rule div_step_N)
      ultimately show ?thesis using E'(2) by auto
    qed
  qed
qed

lemma Lenstra_no_CannotAdd: "Lenstra N x0 y0 a \<noteq> Some (Inl CannotAdd)"
proof
  assume L: "Lenstra N x0 y0 a = Some (Inl CannotAdd)"
  then have N: "1 \<le> N" by (auto simp: Lenstra_def split: if_splits)
  then have "Lenstra_loop (EllipticCurve_init a ((y0 * y0 - x0 * x0 * x0 - a * x0) mod N) N)
      (Some (Point x0 y0)) 1 = Some (Inl CannotAdd)"
    using L by (simp add: Lenstra_def py_mod_def)
  from Lenstra_loop_result [OF this] show False by auto
qed








lemma divisor_bounds:
  fixes d N :: int
  assumes "2 \<le> N" "d \<noteq> 1" "0 \<le> d" "d dvd N"
  shows "1 < d \<and> d \<le> N"
proof -
  have "d \<noteq> 0" using assms(1,4) by auto
  then have "1 < d" using assms(2,3) by linarith
  moreover have "d \<le> N" using assms(1,4) by (intro zdvd_imp_le) simp_all
  ultimately show ?thesis by simp
qed

subsection \<open>Runs of operations\<close>

lemma run_ops_step: "div_step E (run_ops E ops)"
proof (induction ops arbitrary: E)
  case Nil
  show ?case by (simp add: run_ops_def div_step_refl)
next
  case (Cons op ops)
  have "div_step E (apply_op E op)"
    by (cases op) (simp_all add: sum_points_step mult_step)
  moreover have "run_ops E (op # ops) = run_ops (apply_op E op) ops"
    by (simp add: run_ops_def)
  ultimately show ?case using Cons.IH [of "apply_op E op"] by (metis div_step_trans)
qed

lemma run_ops_append: "run_ops E (ops @ ops') = run_ops (run_ops E ops) ops'"
  by (simp add: run_ops_def)

section \<open>The claims\<close>

text \<open>
  C1: for a finite point \<open>P\<close> whose doubling does not fail (\<open>gcd (2 * P.y) N = 1\<close>),
  \<^verbatim>\<open>mult(P, 2)\<close> equals \<^verbatim>\<open>sum(P, P)\<close>. The code does not do this: on the curve
  \<open>a = 1\<close>, \<open>b = 6\<close>, \<open>N = 7\<close> and \<open>P = (1, 1)\<close>, \<^verbatim>\<open>sum(P, P)\<close> is \<open>(2, 4)\<close>
  and \<^verbatim>\<open>mult(P, 2)\<close> is \<open>P\<close> itself. The docstring of \<^verbatim>\<open>mult\<close> promises \<open>k * p\<close>;
  the loop pairs the characters of \<^verbatim>\<open>bin(k)[2:]\<close>, most significant first, with
  \<^verbatim>\<open>powers_of_two[i]\<close>, least significant first.
\<close>

theorem mult_2_is_not_double:
  "gcd (2 * py (Point 1 1)) (ec_N (EllipticCurve_init 1 6 7)) = 1 \<and>
   fst (sum_points (EllipticCurve_init 1 6 7) (Some (Point 1 1)) (Some (Point 1 1))) = Inr (Some (Point 2 4)) \<and>
   fst (mult (EllipticCurve_init 1 6 7) (Some (Point 1 1)) 2) = Inr (Some (Point 1 1))"
  by code_simp

text \<open>
  C2: when an addition or doubling inside \<^verbatim>\<open>mult(P, k)\<close> fails, \<^verbatim>\<open>mult\<close> stops and
  returns \<^verbatim>\<open>None\<close>, and never returns a finite point with \<^verbatim>\<open>div\<close> set during the
  call. The code does not do this: \<^verbatim>\<open>sum\<close> catches \<^verbatim>\<open>CannotAdd\<close> itself, so the
  handler \<^verbatim>\<open>except CannotAdd: return None\<close> of \<^verbatim>\<open>mult\<close> never runs and both loops
  go on. On the curve \<open>a = 1\<close>, \<open>b = 5\<close>, \<open>N = 6\<close> with \<open>P = (1, 1)\<close> the doubling
  fails with \<^verbatim>\<open>div = 2\<close>, and \<^verbatim>\<open>mult(P, 3)\<close> and \<^verbatim>\<open>mult(P, 2)\<close> return \<open>P\<close>.
\<close>

theorem mult_continues_after_failure:
  "sum_points_try (EllipticCurve_init 1 5 6) (Some (Point 1 1)) (Some (Point 1 1)) =
     (Inl CannotAdd, \<lparr>ec_a = 1, ec_b = 5, ec_N = 6, ec_div = 2\<rparr>) \<and>
   mult (EllipticCurve_init 1 5 6) (Some (Point 1 1)) 3 =
     (Inr (Some (Point 1 1)), \<lparr>ec_a = 1, ec_b = 5, ec_N = 6, ec_div = 2\<rparr>) \<and>
   mult (EllipticCurve_init 1 5 6) (Some (Point 1 1)) 2 =
     (Inr (Some (Point 1 1)), \<lparr>ec_a = 1, ec_b = 5, ec_N = 6, ec_div = 2\<rparr>)"
  by code_simp

text \<open>
  C3: on a curve constructed with \<open>N \<ge> 2\<close>, \<^verbatim>\<open>div\<close> starts at 1; after any sequence
  of \<^verbatim>\<open>sum\<close> and \<^verbatim>\<open>mult\<close> calls, a \<^verbatim>\<open>div\<close> other than 1 divides \<open>N\<close> exactly; and
  once \<^verbatim>\<open>div\<close> is greater than 1, no further sequence of calls makes it 1 again.
\<close>

theorem div_divides_N:
  assumes "2 \<le> N"
  shows "ec_div (EllipticCurve_init a b N) = 1 \<and>
    (ec_div (run_ops (EllipticCurve_init a b N) ops) \<noteq> 1 \<longrightarrow>
       ec_div (run_ops (EllipticCurve_init a b N) ops) dvd N \<and>
       N mod ec_div (run_ops (EllipticCurve_init a b N) ops) = 0) \<and>
    (1 < ec_div (run_ops (EllipticCurve_init a b N) ops) \<longrightarrow>
       ec_div (run_ops (EllipticCurve_init a b N) (ops @ ops')) \<noteq> 1)"
proof -
  let ?E = "EllipticCurve_init a b N"
  have N: "ec_N ?E = N" and d: "ec_div ?E = 1" by (simp_all add: EllipticCurve_init_def)
  have "ec_div (run_ops ?E ops) = 1 \<or>
      (ec_div (run_ops ?E ops) \<noteq> 1 \<and> 0 \<le> ec_div (run_ops ?E ops) \<and> ec_div (run_ops ?E ops) dvd N)"
    using div_step_cases [OF run_ops_step [of ?E ops]] unfolding N d .
  then have one: "ec_div (run_ops ?E ops) \<noteq> 1 \<longrightarrow>
       ec_div (run_ops ?E ops) dvd N \<and> N mod ec_div (run_ops ?E ops) = 0"
    by auto
  have "div_step (run_ops ?E ops) (run_ops ?E (ops @ ops'))"
    unfolding run_ops_append by (rule run_ops_step)
  then have two: "1 < ec_div (run_ops ?E ops) \<longrightarrow> ec_div (run_ops ?E (ops @ ops')) \<noteq> 1"
    using div_step_set by fastforce
  show ?thesis using d one two by simp
qed

text \<open>
  On the curve with \<open>N = 6\<close>, a \<^verbatim>\<open>mult\<close> sets \<^verbatim>\<open>div\<close> to 2 and a later \<^verbatim>\<open>sum\<close>
  changes it to 3: \<^verbatim>\<open>div\<close> may change again, but not back to 1.
\<close>

theorem div_divides_N_witness:
  "2 \<le> (6::int) \<and>
   ec_div (run_ops (EllipticCurve_init 1 5 6) [Call_mult (Some (Point 1 1)) 3]) = 2 \<and>
   (6::int) mod 2 = 0 \<and>
   ec_div (run_ops (EllipticCurve_init 1 5 6)
     ([Call_mult (Some (Point 1 1)) 3] @ [Call_sum (Some (Point 0 1)) (Some (Point 3 1))])) = 3 \<and>
   (3::int) \<noteq> 1"
proof -
  have h: "2 \<le> (6::int)" by simp
  have v1: "ec_div (run_ops (EllipticCurve_init 1 5 6) [Call_mult (Some (Point 1 1)) 3]) = 2"
    by code_simp
  have v2: "ec_div (run_ops (EllipticCurve_init 1 5 6)
     ([Call_mult (Some (Point 1 1)) 3] @ [Call_sum (Some (Point 0 1)) (Some (Point 3 1))])) = 3"
    by code_simp
  from div_divides_N [OF h, of 1 5 "[Call_mult (Some (Point 1 1)) 3]"
      "[Call_sum (Some (Point 0 1)) (Some (Point 3 1))]"]
  have "(6::int) mod 2 = 0 \<and> (3::int) \<noteq> 1" unfolding v1 v2 by simp
  then show ?thesis using h v1 v2 by simp
qed

text \<open>
  C4: for every \<open>N \<ge> 2\<close> and every outcome \<open>x0\<close>, \<open>y0\<close>, \<open>a\<close> of the three calls of
  \<^verbatim>\<open>random.randint(1, N)\<close>, if \<^verbatim>\<open>Lenstra(N)\<close> terminates, then it returns an integer
  \<open>d\<close> with \<open>1 \<le> d \<le> N\<close> that divides \<open>N\<close> exactly (and raises nothing).
\<close>

theorem Lenstra_returns_divisor:
  assumes "2 \<le> N" "randint_outcome N x0" "randint_outcome N y0" "randint_outcome N a"
    and "Lenstra N x0 y0 a = Some r"
  shows "\<exists>d. r = Inr d \<and> 1 \<le> d \<and> d \<le> N \<and> N mod d = 0"
proof -
  let ?E = "EllipticCurve_init a ((y0 * y0 - x0 * x0 * x0 - a * x0) mod N) N"
  have "Lenstra_loop ?E (Some (Point x0 y0)) 1 = Some r"
    using assms(1,5) by (simp add: Lenstra_def py_mod_def)
  from Lenstra_loop_result [OF this] obtain E' where
    E': "div_step ?E E'" "r = Inr (ec_div E') \<or> (\<exists>e. r = Inl e \<and> e \<noteq> CannotAdd \<and> ec_N ?E = 0)"
    by blast
  have N: "ec_N ?E = N" and d: "ec_div ?E = 1" by (simp_all add: EllipticCurve_init_def)
  have r: "r = Inr (ec_div E')" using E'(2) N assms(1) by auto
  from div_step_cases [OF E'(1)]
  have "ec_div E' = 1 \<or> (ec_div E' \<noteq> 1 \<and> 0 \<le> ec_div E' \<and> ec_div E' dvd N)"
    unfolding N d .
  then have "1 \<le> ec_div E' \<and> ec_div E' \<le> N \<and> ec_div E' dvd N"
    using divisor_bounds [OF assms(1), of "ec_div E'"] assms(1) by auto
  then show ?thesis using r by auto
qed

text \<open>\<^verbatim>\<open>Lenstra(15)\<close> with the draws 2, 3, 4 returns the factor 3.\<close>

theorem Lenstra_returns_divisor_witness:
  "2 \<le> (15::int) \<and> randint_outcome 15 2 \<and> randint_outcome 15 3 \<and> randint_outcome 15 4
   \<and> Lenstra 15 2 3 4 = Some (Inr 3) \<and> 1 \<le> (3::int) \<and> (3::int) \<le> 15 \<and> (15::int) mod 3 = 0"
proof -
  have h1: "2 \<le> (15::int)" by simp
  have h2: "randint_outcome 15 2" "randint_outcome 15 3" "randint_outcome 15 4"
    by (simp_all add: randint_outcome_def)
  have h3: "Lenstra 15 2 3 4 = Some (Inr 3)" by code_simp
  from Lenstra_returns_divisor [OF h1 h2 h3]
  have "1 \<le> (3::int) \<and> (3::int) \<le> 15 \<and> (15::int) mod 3 = 0" by simp
  then show ?thesis using h1 h2 h3 by simp
qed


text \<open>
  C5: for a finite point \<open>P\<close> with \<open>gcd (2 * P.y) N > 1\<close>, \<^verbatim>\<open>sum(P, P)\<close> returns
  \<^verbatim>\<open>None\<close> and sets \<^verbatim>\<open>div\<close> to exactly that gcd.
\<close>

theorem sum_double_failure:
  assumes "1 < gcd (2 * py P) (ec_N E)"
  shows "sum_points E (Some P) (Some P) = (Inr None, E\<lparr>ec_div := gcd (2 * py P) (ec_N E)\<rparr>)"
  using assms by (simp add: sum_points_def sum_points_try_def)

theorem sum_double_failure_witness:
  "1 < gcd (2 * py (Point 1 1)) (ec_N (EllipticCurve_init 1 5 6)) \<and>
   sum_points (EllipticCurve_init 1 5 6) (Some (Point 1 1)) (Some (Point 1 1)) =
     (Inr None, \<lparr>ec_a = 1, ec_b = 5, ec_N = 6, ec_div = 2\<rparr>)"
proof -
  have g: "gcd (2 * py (Point 1 1)) (ec_N (EllipticCurve_init 1 5 6)) = 2" by code_simp
  then have h: "1 < gcd (2 * py (Point 1 1)) (ec_N (EllipticCurve_init 1 5 6))" by simp
  from sum_double_failure [OF h]
  have "sum_points (EllipticCurve_init 1 5 6) (Some (Point 1 1)) (Some (Point 1 1)) =
     (Inr None, \<lparr>ec_a = 1, ec_b = 5, ec_N = 6, ec_div = 2\<rparr>)"
    unfolding g by (simp add: EllipticCurve_init_def)
  then show ?thesis using h by simp
qed

text \<open>
  C6: for every point \<open>p\<close>, finite or \<^verbatim>\<open>None\<close>, and every curve,
  \<^verbatim>\<open>sum(p, None)\<close> and \<^verbatim>\<open>sum(None, p)\<close> return \<open>p\<close> and leave the curve, so its
  \<^verbatim>\<open>div\<close>, unchanged.
\<close>

theorem sum_identity:
  "sum_points E p None = (Inr p, E) \<and> sum_points E None p = (Inr p, E)"
  by (cases p) (simp_all add: sum_points_def sum_points_try_def)




text \<open>
  C8: no \<^verbatim>\<open>CannotAdd\<close> leaves \<^verbatim>\<open>sum\<close>, \<^verbatim>\<open>mult\<close> or \<^verbatim>\<open>Lenstra\<close>, for any \<open>N\<close>
  and any draws: when the \<^verbatim>\<open>try\<close> block of \<^verbatim>\<open>sum\<close> raises it, \<^verbatim>\<open>sum\<close> returns
  \<^verbatim>\<open>None\<close> with the curve as the block left it, \<^verbatim>\<open>div\<close> other than 1.
\<close>

theorem CannotAdd_never_escapes:
  "fst (sum_points E p q) \<noteq> Inl CannotAdd \<and>
   (fst (sum_points_try E p q) = Inl CannotAdd \<longrightarrow>
      fst (sum_points E p q) = Inr None \<and>
      snd (sum_points E p q) = snd (sum_points_try E p q) \<and>
      ec_div (snd (sum_points E p q)) \<noteq> 1) \<and>
   fst (mult E p k) \<noteq> Inl CannotAdd \<and>
   Lenstra N x0 y0 a \<noteq> Some (Inl CannotAdd)"
proof -
  have "fst (sum_points_try E p q) = Inl CannotAdd \<longrightarrow>
      fst (sum_points E p q) = Inr None \<and>
      snd (sum_points E p q) = snd (sum_points_try E p q) \<and>
      ec_div (snd (sum_points E p q)) \<noteq> 1"
    by (cases E p q rule: sum_points_cases) simp_all
  then show ?thesis
    using sum_points_no_CannotAdd [of E p q] mult_no_CannotAdd [of E p k]
      Lenstra_no_CannotAdd [of N x0 y0 a]
    by blast
qed

text \<open>A failing doubling on the curve with \<open>N = 6\<close>, and \<^verbatim>\<open>Lenstra(6)\<close>.\<close>

theorem CannotAdd_never_escapes_witness:
  "fst (sum_points_try (EllipticCurve_init 1 5 6) (Some (Point 1 1)) (Some (Point 1 1))) = Inl CannotAdd \<and>
   fst (sum_points (EllipticCurve_init 1 5 6) (Some (Point 1 1)) (Some (Point 1 1))) = Inr None \<and>
   ec_div (snd (sum_points (EllipticCurve_init 1 5 6) (Some (Point 1 1)) (Some (Point 1 1)))) \<noteq> 1 \<and>
   fst (mult (EllipticCurve_init 1 5 6) (Some (Point 1 1)) 3) \<noteq> Inl CannotAdd \<and>
   Lenstra 6 1 1 1 \<noteq> Some (Inl CannotAdd)"
proof -
  have h: "fst (sum_points_try (EllipticCurve_init 1 5 6) (Some (Point 1 1)) (Some (Point 1 1))) = Inl CannotAdd"
    by code_simp
  show ?thesis
    using h CannotAdd_never_escapes [of "EllipticCurve_init 1 5 6" "Some (Point 1 1)" "Some (Point 1 1)" 3 6 1 1 1]
    by blast
qed

text \<open>
  C9 says: on every curve, for two distinct finite points with the same \<^verbatim>\<open>x\<close>,
  \<^verbatim>\<open>sum(p, q)\<close> sets \<^verbatim>\<open>div\<close> to \<open>gcd 0 N = N\<close> and returns \<^verbatim>\<open>None\<close>. Not on the
  curve with \<open>N = 1\<close>: \<open>gcd 0 1 = 1\<close> passes the test, \<^verbatim>\<open>pow(0, -1, 1)\<close> is 0, and
  \<^verbatim>\<open>sum\<close> returns the point \<open>(0, 0)\<close> with \<^verbatim>\<open>div\<close> left at 1.
\<close>

theorem sum_equal_x_modulus_1:
  "Point 1 1 \<noteq> Point 1 5 \<and> px (Point 1 1) = px (Point 1 5) \<and>
   sum_points (EllipticCurve_init 3 0 1) (Some (Point 1 1)) (Some (Point 1 5)) =
     (Inr (Some (Point 0 0)), \<lparr>ec_a = 3, ec_b = 0, ec_N = 1, ec_div = 1\<rparr>)"
  by code_simp

text \<open>
  C9, as the code has it: on a curve whose \<open>N\<close> is neither 1 nor -1, for two
  distinct finite points with the same \<^verbatim>\<open>x\<close>, the denominator is 0,
  \<^verbatim>\<open>sum(p, q)\<close> returns \<^verbatim>\<open>None\<close> and sets \<^verbatim>\<open>div\<close> to \<open>gcd 0 N\<close>, the absolute
  value of \<open>N\<close>; that is \<open>N\<close> itself whenever \<open>N \<ge> 0\<close>, so for \<open>N = 0\<close> and for
  every \<open>N \<ge> 2\<close>.
\<close>

theorem sum_equal_x:
  assumes "\<bar>ec_N E\<bar> \<noteq> 1" "P \<noteq> Q" "px P = px Q"
  shows "gcd (px Q - px P) (ec_N E) = \<bar>ec_N E\<bar> \<and>
    sum_points E (Some P) (Some Q) = (Inr None, E\<lparr>ec_div := \<bar>ec_N E\<bar>\<rparr>) \<and>
    (0 \<le> ec_N E \<longrightarrow> sum_points E (Some P) (Some Q) = (Inr None, E\<lparr>ec_div := ec_N E\<rparr>))"
proof -
  have g: "gcd (px Q - px P) (ec_N E) = \<bar>ec_N E\<bar>" using assms(3) by simp
  then have "gcd (px Q - px P) (ec_N E) \<noteq> 1" using assms(1) by simp
  then have "sum_points_try E (Some P) (Some Q) =
      (Inl CannotAdd, E\<lparr>ec_div := gcd (px Q - px P) (ec_N E)\<rparr>)"
    using assms(2) by (simp add: sum_points_try_def)
  then have "sum_points E (Some P) (Some Q) = (Inr None, E\<lparr>ec_div := \<bar>ec_N E\<bar>\<rparr>)"
    unfolding g by (simp add: sum_points_def)
  then show ?thesis using g by simp
qed

text \<open>Two points with \<open>x = 1\<close> on the curve with \<open>N = 6\<close>.\<close>

theorem sum_equal_x_witness:
  "\<bar>ec_N (EllipticCurve_init 1 5 6)\<bar> \<noteq> 1 \<and> Point 1 1 \<noteq> Point 1 5 \<and>
   px (Point 1 1) = px (Point 1 5) \<and> 0 \<le> ec_N (EllipticCurve_init 1 5 6) \<and>
   sum_points (EllipticCurve_init 1 5 6) (Some (Point 1 1)) (Some (Point 1 5)) =
     (Inr None, \<lparr>ec_a = 1, ec_b = 5, ec_N = 6, ec_div = 6\<rparr>)"
proof -
  have h: "\<bar>ec_N (EllipticCurve_init 1 5 6)\<bar> \<noteq> 1" "Point 1 1 \<noteq> Point 1 5"
    "px (Point 1 1) = px (Point 1 5)"
    by (simp_all add: EllipticCurve_init_def)
  have n: "0 \<le> ec_N (EllipticCurve_init 1 5 6)" by (simp add: EllipticCurve_init_def)
  from sum_equal_x [OF h] n
  have "sum_points (EllipticCurve_init 1 5 6) (Some (Point 1 1)) (Some (Point 1 5)) =
     (Inr None, \<lparr>ec_a = 1, ec_b = 5, ec_N = 6, ec_div = 6\<rparr>)"
    by (simp add: EllipticCurve_init_def)
  then show ?thesis using h n by simp
qed

text \<open>
  C10: for every point \<open>p\<close>, \<^verbatim>\<open>mult(p, 0)\<close> returns \<^verbatim>\<open>None\<close> and leaves the curve,
  so its \<^verbatim>\<open>div\<close>, unchanged: the binary expansion \<^verbatim>\<open>0\<close> has no set bit.
\<close>

theorem mult_zero: "mult E p 0 = (Inr None, E)"
  by (cases p) (simp_all add: mult_def mult_try_def bin_def bits_0 enumerate_simps)


end
